theory Spec2Isabelle
  imports Complex_Main "HOL-Library.Multiset"
begin

section \<open>The JavaScript \<open>number\<close> type\<close>

text \<open>
  A \<open>number\<close> is an IEEE 754 double: a finite value (always a rational), NaN or an
  infinity. The sign of zero is not represented; no operation of \<open>utils.ts\<close> can tell
  \<open>-0\<close> from \<open>0\<close>.
\<close>

datatype number = Fin rat | NaN | PInf | NInf

function ilog2 :: "int \<Rightarrow> int" where
  "ilog2 n = (if n < 2 then 0 else 1 + ilog2 (n div 2))"
  by auto
termination
  by (relation "measure nat") auto

declare ilog2.simps [simp del]

definition pow2 :: "int \<Rightarrow> rat" where
  "pow2 k = (if 0 \<le> k then 2 ^ nat k else 1 / 2 ^ nat (- k))"

text \<open>The binary exponent \<open>e\<close> of a non-zero rational: \<open>2^e \<le> |q| < 2^(e+1)\<close>.\<close>

definition exponent :: "rat \<Rightarrow> int" where
  "exponent q =
     (let (n, d) = quotient_of q;
          e0 = ilog2 \<bar>n\<bar> - ilog2 d
      in if pow2 e0 \<le> \<bar>q\<bar> then e0 else e0 - 1)"

text \<open>Round to the nearest integer, ties to the even one.\<close>

definition round_half_even :: "rat \<Rightarrow> int" where
  "round_half_even x =
     (let f = \<lfloor>x\<rfloor>; r = x - of_int f
      in if r < 1 / 2 then f
         else if 1 / 2 < r then f + 1
         else if even f then f else f + 1)"

text \<open>
  \<open>fl q\<close> is the double nearest to the exact value \<open>q\<close>: a significand \<open>m\<close> of at most
  53 bits times a power of two, the smallest spacing being \<open>2^-1074\<close>; a value that
  rounds to \<open>2^1024\<close> or more becomes an infinity.
\<close>

definition fl :: "rat \<Rightarrow> number" where
  "fl q =
     (if q = 0 then Fin 0
      else let e = exponent q;
               u = pow2 (max (e - 52) (- 1074));
               m = round_half_even (q / u)
           in if 1024 \<le> e \<or> (e = 1023 \<and> \<bar>m\<bar> = 2 ^ 53)
              then (if 0 < q then PInf else NInf)
              else Fin (of_int m * u))"

fun fadd :: "number \<Rightarrow> number \<Rightarrow> number" where
  "fadd NaN _ = NaN"
| "fadd _ NaN = NaN"
| "fadd (Fin a) (Fin b) = fl (a + b)"
| "fadd PInf NInf = NaN"
| "fadd NInf PInf = NaN"
| "fadd PInf _ = PInf"
| "fadd NInf _ = NInf"
| "fadd (Fin a) PInf = PInf"
| "fadd (Fin a) NInf = NInf"

definition fneg :: "number \<Rightarrow> number" where
  "fneg x = (case x of Fin a \<Rightarrow> Fin (- a) | NaN \<Rightarrow> NaN | PInf \<Rightarrow> NInf | NInf \<Rightarrow> PInf)"

text \<open>The sign of a number other than NaN: \<open>-1\<close>, \<open>0\<close> or \<open>1\<close>.\<close>

definition fsgn :: "number \<Rightarrow> int" where
  "fsgn x = (case x of Fin a \<Rightarrow> (if a < 0 then - 1 else if a = 0 then 0 else 1)
                     | NaN \<Rightarrow> 0 | PInf \<Rightarrow> 1 | NInf \<Rightarrow> - 1)"

definition signed_inf :: "int \<Rightarrow> number" where
  "signed_inf s = (if s = 0 then NaN else if 0 < s then PInf else NInf)"

fun fmul :: "number \<Rightarrow> number \<Rightarrow> number" where
  "fmul NaN _ = NaN"
| "fmul _ NaN = NaN"
| "fmul (Fin a) (Fin b) = fl (a * b)"
| "fmul x y = signed_inf (fsgn x * fsgn y)"

fun fdiv :: "number \<Rightarrow> number \<Rightarrow> number" where
  "fdiv NaN _ = NaN"
| "fdiv _ NaN = NaN"
| "fdiv (Fin a) (Fin b) = (if b = 0 then signed_inf (fsgn (Fin a)) else fl (a / b))"
| "fdiv (Fin a) _ = Fin 0"
| "fdiv x (Fin b) = (if b < 0 then fneg x else x)"
| "fdiv _ _ = NaN"

text \<open>The comparison \<open>x > y\<close>: false as soon as one side is NaN.\<close>

fun fgt :: "number \<Rightarrow> number \<Rightarrow> bool" where
  "fgt NaN _ = False"
| "fgt _ NaN = False"
| "fgt (Fin a) (Fin b) = (b < a)"
| "fgt PInf y = (y \<noteq> PInf)"
| "fgt NInf _ = False"
| "fgt (Fin a) y = (y = NInf)"

text \<open>\<open>Math.round\<close>: the nearest integer, a tie going up.\<close>

definition Math_round :: "number \<Rightarrow> number" where
  "Math_round x = (case x of Fin a \<Rightarrow> Fin (of_int \<lfloor>a + 1 / 2\<rfloor>) | y \<Rightarrow> y)"

section \<open>The BigNumber of \<open>@ethersproject/bignumber\<close>\<close>

text \<open>
  A BigNumber is an integer of any size. The library raises an error with the code
  \<open>INVALID_ARGUMENT\<close> for text that is no integer, and a \<open>NUMERIC_FAULT\<close> naming the
  fault: \<open>underflow\<close> (a number with a fraction), \<open>overflow\<close> (a number outside the safe
  integers) or \<open>division-by-zero\<close>. \<open>TypeError\<close> is the language's own error for reading a
  property of \<open>undefined\<close>.
\<close>

datatype error = InvalidArgument | Underflow | Overflow | DivisionByZero | TypeError

type_synonym BigNumber = int

definition MAX_SAFE :: int where
  "MAX_SAFE = 2 ^ 53 - 1"

definition is_integer :: "rat \<Rightarrow> bool" where
  "is_integer a = (of_int \<lfloor>a\<rfloor> = a)"

text \<open>
  \<open>BigNumber.from(value)\<close> for a \<open>number\<close>: \<open>value % 1\<close> must be falsy, the value must lie
  strictly between \<open>-MAX_SAFE\<close> and \<open>MAX_SAFE\<close>, and its text must be a decimal integer
  (the text \<open>NaN\<close> is not).
\<close>

definition BigNumber_from_number :: "number \<Rightarrow> error + BigNumber" where
  "BigNumber_from_number v =
     (case v of
        Fin a \<Rightarrow>
          if \<not> is_integer a then Inl Underflow
          else if of_int MAX_SAFE \<le> a \<or> a \<le> - of_int MAX_SAFE then Inl Overflow
          else Inr \<lfloor>a\<rfloor>
      | NaN \<Rightarrow> Inl InvalidArgument
      | PInf \<Rightarrow> Inl Overflow
      | NInf \<Rightarrow> Inl Overflow)"

definition bn_mul :: "BigNumber \<Rightarrow> number \<Rightarrow> error + BigNumber" where
  "bn_mul a v = (case BigNumber_from_number v of Inl e \<Rightarrow> Inl e | Inr b \<Rightarrow> Inr (a * b))"

text \<open>Division of two integers, the quotient truncated towards zero.\<close>

definition tdiv :: "int \<Rightarrow> int \<Rightarrow> int" where
  "tdiv a b = sgn a * sgn b * (\<bar>a\<bar> div \<bar>b\<bar>)"

definition bn_div :: "BigNumber \<Rightarrow> BigNumber \<Rightarrow> error + BigNumber" where
  "bn_div a b = (if b = 0 then Inl DivisionByZero else Inr (tdiv a b))"

definition bn_div_number :: "BigNumber \<Rightarrow> number \<Rightarrow> error + BigNumber" where
  "bn_div_number a v = (case BigNumber_from_number v of Inl e \<Rightarrow> Inl e | Inr b \<Rightarrow> bn_div a b)"

text \<open>\<open>toNumber()\<close> raises an overflow for an integer of more than 53 bits.\<close>

definition toNumber :: "BigNumber \<Rightarrow> error + number" where
  "toNumber a = (if \<bar>a\<bar> < 2 ^ 53 then Inr (Fin (of_int a)) else Inl Overflow)"

section \<open>Scaled arithmetic\<close>

definition default_scale :: number where
  "default_scale = Fin 10000"

text \<open>\<open>a.mul(Math.round(b * scale)).div(scale)\<close>\<close>

definition mulBN :: "BigNumber \<Rightarrow> number \<Rightarrow> number \<Rightarrow> error + BigNumber" where
  "mulBN a b scale =
     (case bn_mul a (Math_round (fmul b scale)) of
        Inl e \<Rightarrow> Inl e
      | Inr m \<Rightarrow> bn_div_number m scale)"

text \<open>\<open>a.mul(scale).div(b).toNumber() / scale\<close>\<close>

definition divBN :: "BigNumber \<Rightarrow> BigNumber \<Rightarrow> number \<Rightarrow> error + number" where
  "divBN a b scale =
     (case bn_mul a scale of
        Inl e \<Rightarrow> Inl e
      | Inr m \<Rightarrow>
          (case bn_div m b of
             Inl e \<Rightarrow> Inl e
           | Inr q \<Rightarrow>
               (case toNumber q of
                  Inl e \<Rightarrow> Inl e
                | Inr x \<Rightarrow> Inr (fdiv x scale))))"

section \<open>Positions\<close>

text \<open>
  Modelled from the spec: the types \<open>Position\<close>, \<open>LeaderBoardPosition\<close> and \<open>BoardData\<close> of
  \<open>interfaces.ts\<close>. The amounts of a position are texts; a text is represented by what
  the constructors of \<open>utils.ts\<close> make of it: the decimal text of an integer, or a text
  that \<open>BigNumber.from\<close> rejects (a hexadecimal text, which the library reads as well, is
  not represented). A price is the decimal text of a rational, or a text that \<open>Number\<close>
  turns into NaN.
\<close>

datatype amount_text = IntegerText int | BadIntegerText

datatype decimal_text = DecimalText rat | NonNumericText

record Market =
  outcomeTokenPrices :: "decimal_text list"

record User =
  id' :: string

record Position =
  netQuantity :: amount_text
  valueSold :: amount_text
  valueBought :: amount_text
  outcomeIndex :: int
  market :: Market
  user :: User

record LeaderBoardPosition =
  user :: string
  earnings :: number
  invested :: number
  roi :: number

record BoardData =
  leaderBoardPositions :: "LeaderBoardPosition list"

definition BigNumber_from :: "amount_text \<Rightarrow> error + BigNumber" where
  "BigNumber_from t = (case t of IntegerText n \<Rightarrow> Inr n | BadIntegerText \<Rightarrow> Inl InvalidArgument)"

text \<open>\<open>Number(text)\<close> of an amount.\<close>

definition Number_amount :: "amount_text \<Rightarrow> number" where
  "Number_amount t = (case t of IntegerText n \<Rightarrow> fl (of_int n) | BadIntegerText \<Rightarrow> NaN)"

text \<open>Reading an array at an index: \<open>undefined\<close> (here \<open>None\<close>) outside the array.\<close>

definition array_get :: "'a list \<Rightarrow> int \<Rightarrow> 'a option" where
  "array_get xs i = (if 0 \<le> i \<and> i < int (length xs) then Some (xs ! nat i) else None)"

text \<open>\<open>Number(text)\<close> of a price that was read from the array; \<open>Number(undefined)\<close> is NaN.\<close>

definition Number_price :: "decimal_text option \<Rightarrow> number" where
  "Number_price t =
     (case t of None \<Rightarrow> NaN | Some NonNumericText \<Rightarrow> NaN | Some (DecimalText q) \<Rightarrow> fl q)"

definition getEarnings :: "Position \<Rightarrow> error + number" where
  "getEarnings position =
     (case BigNumber_from (netQuantity position) of
        Inl e \<Rightarrow> Inl e
      | Inr netQuantity' \<Rightarrow>
     (let outcomeTokenPrice =
            Number_price (array_get (outcomeTokenPrices (market position)) (outcomeIndex position))
      in case BigNumber_from (valueSold position) of
        Inl e \<Rightarrow> Inl e
      | Inr valueSold' \<Rightarrow>
     (case BigNumber_from (valueBought position) of
        Inl e \<Rightarrow> Inl e
      | Inr valueBought' \<Rightarrow>
     (case mulBN netQuantity' outcomeTokenPrice default_scale of
        Inl e \<Rightarrow> Inl e
      | Inr netValue \<Rightarrow> toNumber (netValue + valueSold' - valueBought')))))"

definition getROI :: "Position \<Rightarrow> error + number" where
  "getROI position =
     (case BigNumber_from (netQuantity position) of
        Inl e \<Rightarrow> Inl e
      | Inr netQuantity' \<Rightarrow>
     (let outcomeTokenPrice =
            Number_price (array_get (outcomeTokenPrices (market position)) (outcomeIndex position))
      in case BigNumber_from (valueSold position) of
        Inl e \<Rightarrow> Inl e
      | Inr valueSold' \<Rightarrow>
     (case BigNumber_from (valueBought position) of
        Inl e \<Rightarrow> Inl e
      | Inr valueBought' \<Rightarrow>
     (case mulBN netQuantity' outcomeTokenPrice default_scale of
        Inl e \<Rightarrow> Inl e
      | Inr netValue \<Rightarrow>
          (case divBN (netValue + valueSold' - valueBought') valueBought' default_scale of
             Inl e \<Rightarrow> Inl e
           | Inr x \<Rightarrow> Inr (fmul x (Fin 100)))))))"

text \<open>
  \<open>getAllPositions\<close> pushes one record for each position, in the order of \<open>data\<close>; an
  error raised for one position ends the whole call. The array \<open>data\<close> is only read.
\<close>

fun getAllPositions :: "Position list \<Rightarrow> error + LeaderBoardPosition list" where
  "getAllPositions [] = Inr []"
| "getAllPositions (position # data) =
     (case getEarnings position of
        Inl e \<Rightarrow> Inl e
      | Inr earnings' \<Rightarrow>
     (case getROI position of
        Inl e \<Rightarrow> Inl e
      | Inr roi' \<Rightarrow>
     (let positionObject =
            \<lparr>user = id' (Position.user position), earnings = earnings',
             invested = Number_amount (valueBought position), roi = roi'\<rparr>
      in case getAllPositions data of
           Inl e \<Rightarrow> Inl e
         | Inr allPositions \<Rightarrow> Inr (positionObject # allPositions))))"

section \<open>Grouping by user\<close>

text \<open>
  \<open>_.groupBy\<close> fills an object that starts empty: a value whose key the object already
  has is pushed onto that key's array, any other value creates the key with a one-element
  array. The object is modelled by its own keys, in creation order, each with its array.
\<close>

fun group_insert :: "string \<Rightarrow> 'a \<Rightarrow> (string \<times> 'a list) list \<Rightarrow> (string \<times> 'a list) list" where
  "group_insert key v [] = [(key, [v])]"
| "group_insert key v ((k, vs) # result) =
     (if k = key then (k, vs @ [v]) # result else (k, vs) # group_insert key v result)"

definition groupBy :: "'a list \<Rightarrow> ('a \<Rightarrow> string) \<Rightarrow> (string \<times> 'a list) list" where
  "groupBy collection iteratee = foldl (\<lambda>result v. group_insert (iteratee v) v result) [] collection"

text \<open>
  \<open>Object.values\<close> follows the order of the own property keys: first the keys that are
  array indices (the canonical decimal text of an integer from \<open>0\<close> to \<open>2^32 - 2\<close>), in
  ascending numeric order, then every other key in creation order.
\<close>

definition is_digit :: "char \<Rightarrow> bool" where
  "is_digit c = (48 \<le> (of_char c :: int) \<and> (of_char c :: int) \<le> 57)"

definition decimal_value :: "string \<Rightarrow> int" where
  "decimal_value s = foldl (\<lambda>n c. 10 * n + (of_char c - 48)) 0 s"

definition is_array_index :: "string \<Rightarrow> bool" where
  "is_array_index s =
     (s \<noteq> [] \<and> list_all is_digit s \<and> (length s = 1 \<or> hd s \<noteq> CHR ''0'')
      \<and> decimal_value s < 2 ^ 32 - 1)"

definition Object_values :: "(string \<times> 'v) list \<Rightarrow> 'v list" where
  "Object_values obj =
     map snd (sort_key (\<lambda>kv. decimal_value (fst kv)) (filter (\<lambda>kv. is_array_index (fst kv)) obj)
              @ filter (\<lambda>kv. \<not> is_array_index (fst kv)) obj)"

text \<open>
  The callback of \<open>getAggregatedPositions\<close> for one group: three \<open>reduce\<close> calls from
  \<open>0\<close>, then the read of \<open>position[0].user\<close>, a \<open>TypeError\<close> when the group is empty.
\<close>

definition aggregate_group :: "LeaderBoardPosition list \<Rightarrow> error + LeaderBoardPosition" where
  "aggregate_group position =
     (let totalInvested = foldl (\<lambda>t p. fadd t (invested p)) (Fin 0) position;
          totalEarnings = foldl (\<lambda>t p. fadd t (earnings p)) (Fin 0) position;
          totalROI = foldl (\<lambda>t p. fadd t (roi p)) (Fin 0) position
      in case position of
           [] \<Rightarrow> Inl TypeError
         | p # _ \<Rightarrow>
             Inr \<lparr>user = user p, earnings = totalEarnings, invested = totalInvested,
                  roi = totalROI\<rparr>)"

fun forEach_push :: "('a \<Rightarrow> error + 'b) \<Rightarrow> 'a list \<Rightarrow> error + 'b list" where
  "forEach_push f [] = Inr []"
| "forEach_push f (x # xs) =
     (case f x of
        Inl e \<Rightarrow> Inl e
      | Inr y \<Rightarrow> (case forEach_push f xs of Inl e \<Rightarrow> Inl e | Inr ys \<Rightarrow> Inr (y # ys)))"

definition getAggregatedPositions :: "LeaderBoardPosition list \<Rightarrow> error + LeaderBoardPosition list" where
  "getAggregatedPositions allPositions =
     (let positionsByUser = groupBy allPositions user
      in forEach_push aggregate_group (Object_values positionsByUser))"

section \<open>Ranking\<close>

text \<open>The comparator handed to \<open>sort\<close>; \<open>Number\<close> of a number is that number.\<close>

definition compareEarnings :: "LeaderBoardPosition \<Rightarrow> LeaderBoardPosition \<Rightarrow> int" where
  "compareEarnings a b = (if fgt (earnings a) (earnings b) then - 1 else 1)"

text \<open>
  \<open>Array.prototype.sort\<close> sorts the array in place. The engine consults the comparator
  only through the test \<open>comparefn(x, y) < 0\<close> and moves \<open>x\<close> in front of \<open>y\<close> only when the
  test holds. It is modelled by the insertion sort that takes the elements in array order
  and puts each one in front of the first element the test orders it before.
\<close>

fun insert_sorted :: "('a \<Rightarrow> 'a \<Rightarrow> int) \<Rightarrow> 'a \<Rightarrow> 'a list \<Rightarrow> 'a list" where
  "insert_sorted comparefn x [] = [x]"
| "insert_sorted comparefn x (y # ys) =
     (if comparefn x y < 0 then x # y # ys else y # insert_sorted comparefn x ys)"

definition array_sort :: "('a \<Rightarrow> 'a \<Rightarrow> int) \<Rightarrow> 'a list \<Rightarrow> 'a list" where
  "array_sort comparefn xs = foldl (\<lambda>sorted x. insert_sorted comparefn x sorted) [] xs"

text \<open>
  \<open>getTopTen\<close> sorts its argument in place and returns the record holding the first ten
  elements. The model returns the argument array as the call leaves it, and the record.
\<close>

definition getTopTen :: "LeaderBoardPosition list \<Rightarrow> LeaderBoardPosition list \<times> BoardData" where
  "getTopTen aggregatedPositions =
     (let aggregatedPositions' = array_sort compareEarnings aggregatedPositions;
          board = take 10 aggregatedPositions';
          topTen = \<lparr>leaderBoardPositions = board\<rparr>
      in (aggregatedPositions', topTen))"

section \<open>Notions used in the statements\<close>

text \<open>A list of records is ranked when no record has greater earnings than one before it.\<close>

abbreviation ranked :: "LeaderBoardPosition list \<Rightarrow> bool" where
  "ranked \<equiv> sorted_wrt (\<lambda>a b. \<not> fgt (earnings b) (earnings a))"

text \<open>The distinct elements of a list, in the order of their first occurrence.\<close>

definition first_occurrences :: "'a list \<Rightarrow> 'a list" where
  "first_occurrences xs = foldl (\<lambda>seen x. if x \<in> set seen then seen else seen @ [x]) [] xs"

text \<open>The order in which an object lists its keys, given the order of their creation.\<close>

definition key_order :: "string list \<Rightarrow> string list" where
  "key_order keys =
     sort_key decimal_value (filter is_array_index keys) @ filter (\<lambda>k. \<not> is_array_index k) keys"

text \<open>The records of a user, in the order of the list.\<close>

definition members :: "string \<Rightarrow> LeaderBoardPosition list \<Rightarrow> LeaderBoardPosition list" where
  "members u xs = filter (\<lambda>p. user p = u) xs"

text \<open>The sum of numbers as \<open>reduce((t, x) => t + x, 0)\<close> computes it, left to right.\<close>

definition sum_numbers :: "number list \<Rightarrow> number" where
  "sum_numbers ns = foldl fadd (Fin 0) ns"

definition aggregate_of :: "string \<Rightarrow> LeaderBoardPosition list \<Rightarrow> LeaderBoardPosition" where
  "aggregate_of u xs =
     \<lparr>user = u, earnings = sum_numbers (map earnings (members u xs)),
      invested = sum_numbers (map invested (members u xs)),
      roi = sum_numbers (map roi (members u xs))\<rparr>"

text \<open>The exact value of a finite number, and the exact sum of a list of finite numbers.\<close>

definition fin_value :: "number \<Rightarrow> rat" where
  "fin_value x = (case x of Fin q \<Rightarrow> q | _ \<Rightarrow> 0)"

definition exact_sum :: "number list \<Rightarrow> rat" where
  "exact_sum ns = sum_list (map fin_value ns)"

text \<open>An amount is a number that is a non-negative integer.\<close>

definition is_amount :: "number \<Rightarrow> bool" where
  "is_amount x = (case x of Fin q \<Rightarrow> is_integer q \<and> 0 \<le> q | _ \<Rightarrow> False)"

section \<open>Properties of the scaled arithmetic and of the valuation\<close>

lemma Math_round_Fin_int: "Math_round (Fin (of_int m)) = Fin (of_int m)"
proof -
  have "\<lfloor>rat_of_int m + 1 / 2\<rfloor> = m"
    by (rule floor_unique) auto
  then show ?thesis by (simp add: Math_round_def)
qed








text \<open>
  C1, as amended. For a position whose three amounts parse, whose \<open>outcomeIndex\<close> is
  within the prices and for which \<open>mulBN\<close> returns \<open>netValue\<close>, \<open>getEarnings\<close> returns
  \<open>netValue + valueSold - valueBought\<close> when the magnitude of that integer is below
  \<open>2^53\<close>, and raises an overflow otherwise.
\<close>

theorem getEarnings_value:
  assumes "BigNumber_from (netQuantity p) = Inr nq"
    and "BigNumber_from (valueSold p) = Inr vs"
    and "BigNumber_from (valueBought p) = Inr vb"
    and "array_get (outcomeTokenPrices (market p)) (outcomeIndex p) = Some t"
    and "mulBN nq (Number_price (Some t)) default_scale = Inr nv"
  shows "getEarnings p =
           (if \<bar>nv + vs - vb\<bar> < 2 ^ 53 then Inr (Fin (of_int (nv + vs - vb))) else Inl Overflow)"
  using assms by (simp add: getEarnings_def toNumber_def)

theorem getEarnings_value_witness:
  "getEarnings \<lparr>netQuantity = IntegerText 1000000, valueSold = IntegerText 5,
       valueBought = IntegerText 300000, outcomeIndex = 1,
       market = \<lparr>outcomeTokenPrices = [DecimalText (1 / 2), DecimalText (37 / 100)]\<rparr>,
       user = \<lparr>id' = ''A''\<rparr>\<rparr> = Inr (Fin 70005)"
proof -
  let ?p = "\<lparr>netQuantity = IntegerText 1000000, valueSold = IntegerText 5,
       valueBought = IntegerText 300000, outcomeIndex = 1,
       market = \<lparr>outcomeTokenPrices = [DecimalText (1 / 2), DecimalText (37 / 100)]\<rparr>,
       user = \<lparr>id' = ''A''\<rparr>\<rparr>"
  have 1: "BigNumber_from (netQuantity ?p) = Inr 1000000" by (simp add: BigNumber_from_def)
  have 2: "BigNumber_from (valueSold ?p) = Inr 5" by (simp add: BigNumber_from_def)
  have 3: "BigNumber_from (valueBought ?p) = Inr 300000" by (simp add: BigNumber_from_def)
  have 4: "array_get (outcomeTokenPrices (market ?p)) (outcomeIndex ?p) = Some (DecimalText (37 / 100))"
    by (simp add: array_get_def)
  have 5: "mulBN 1000000 (Number_price (Some (DecimalText (37 / 100)))) default_scale = Inr 370000"
    by code_simp
  show ?thesis using getEarnings_value [OF 1 2 3 4 5] by simp
qed

text \<open>
  C1 as written fails for large amounts: the amounts below parse, the index is within the
  prices and \<open>mulBN\<close> returns \<open>0\<close>, but the sum \<open>2^53\<close> is beyond what \<open>toNumber\<close> converts.
\<close>

theorem getEarnings_overflow_counterexample:
  "BigNumber_from (IntegerText 0) = Inr 0 \<and> BigNumber_from (IntegerText (2 ^ 53)) = Inr (2 ^ 53)
   \<and> array_get [DecimalText (1 / 2)] 0 = Some (DecimalText (1 / 2))
   \<and> mulBN 0 (Number_price (Some (DecimalText (1 / 2)))) default_scale = Inr 0
   \<and> getEarnings \<lparr>netQuantity = IntegerText 0, valueSold = IntegerText (2 ^ 53),
       valueBought = IntegerText 0, outcomeIndex = 0,
       market = \<lparr>outcomeTokenPrices = [DecimalText (1 / 2)]\<rparr>,
       user = \<lparr>id' = ''A''\<rparr>\<rparr> = Inl Overflow"
  by code_simp






section \<open>Properties of the ranking\<close>

lemma fgt_trans_le: "a \<noteq> NaN \<Longrightarrow> b \<noteq> NaN \<Longrightarrow> c \<noteq> NaN \<Longrightarrow> fgt a b \<Longrightarrow> \<not> fgt c b \<Longrightarrow> \<not> fgt c a"
  by (cases a; cases b; cases c) auto

lemma fgt_le_trans: "a \<noteq> NaN \<Longrightarrow> b \<noteq> NaN \<Longrightarrow> c \<noteq> NaN \<Longrightarrow> \<not> fgt b a \<Longrightarrow> \<not> fgt c b \<Longrightarrow> \<not> fgt c a"
  by (cases a; cases b; cases c) auto

lemma fgt_irrefl: "\<not> fgt a a"
  by (cases a) auto

lemma fgt_total: "a \<noteq> NaN \<Longrightarrow> b \<noteq> NaN \<Longrightarrow> \<not> fgt a b \<Longrightarrow> \<not> fgt b a \<Longrightarrow> a = b"
  by (cases a; cases b) auto

lemma mset_insert_sorted: "mset (insert_sorted c x ys) = add_mset x (mset ys)"
  by (induction ys) auto

lemma set_insert_sorted: "set (insert_sorted c x ys) = insert x (set ys)"
  by (induction ys) auto

lemma mset_foldl_insert_sorted:
  "mset (foldl (\<lambda>sorted x. insert_sorted c x sorted) acc xs) = mset acc + mset xs"
  by (induction xs arbitrary: acc) (auto simp: mset_insert_sorted)

lemma mset_array_sort: "mset (array_sort c xs) = mset xs"
  by (simp add: array_sort_def mset_foldl_insert_sorted)

lemma ranked_insert_sorted:
  assumes "ranked ys" and "earnings x \<noteq> NaN" and "\<forall>y\<in>set ys. earnings y \<noteq> NaN"
  shows "ranked (insert_sorted compareEarnings x ys)"
  using assms
proof (induction ys)
  case Nil
  then show ?case by simp
next
  case (Cons y ys)
  show ?case
  proof (cases "fgt (earnings x) (earnings y)")
    case True
    have "\<not> fgt (earnings z) (earnings x)" if "z \<in> set (y # ys)" for z
    proof -
      have "\<not> fgt (earnings z) (earnings y)"
        using that Cons.prems(1) by (auto simp: fgt_irrefl)
      then show ?thesis
        using fgt_trans_le [OF _ _ _ True] that Cons.prems(2,3) by auto
    qed
    with True Cons.prems(1) show ?thesis by (simp add: compareEarnings_def)
  next
    case False
    with Cons show ?thesis by (auto simp: compareEarnings_def set_insert_sorted)
  qed
qed

lemma filter_insert_sorted:
  assumes "ranked ys" and "earnings x \<noteq> NaN" and "\<forall>y\<in>set ys. earnings y \<noteq> NaN"
  shows "filter (\<lambda>r. earnings r = v) (insert_sorted compareEarnings x ys)
         = filter (\<lambda>r. earnings r = v) ys @ filter (\<lambda>r. earnings r = v) [x]"
  using assms
proof (induction ys)
  case Nil
  then show ?case by simp
next
  case (Cons y ys)
  show ?case
  proof (cases "fgt (earnings x) (earnings y)")
    case True
    have "earnings z \<noteq> earnings x" if "z \<in> set (y # ys)" for z
    proof -
      have "\<not> fgt (earnings z) (earnings y)"
        using that Cons.prems(1) by (auto simp: fgt_irrefl)
      then show ?thesis
        using True by auto
    qed
    then have "earnings x = v \<Longrightarrow> filter (\<lambda>r. earnings r = v) (y # ys) = []"
      by (auto simp: filter_empty_conv)
    with True show ?thesis by (auto simp: compareEarnings_def)
  next
    case False
    with Cons show ?thesis by (auto simp: compareEarnings_def)
  qed
qed

lemma foldl_insert_sorted_ranked:
  assumes "ranked acc" and "\<forall>y\<in>set acc. earnings y \<noteq> NaN" and "\<forall>y\<in>set xs. earnings y \<noteq> NaN"
  shows "ranked (foldl (\<lambda>sorted x. insert_sorted compareEarnings x sorted) acc xs)
         \<and> filter (\<lambda>r. earnings r = v) (foldl (\<lambda>sorted x. insert_sorted compareEarnings x sorted) acc xs)
           = filter (\<lambda>r. earnings r = v) acc @ filter (\<lambda>r. earnings r = v) xs"
  using assms
proof (induction xs arbitrary: acc)
  case Nil
  then show ?case by simp
next
  case (Cons x xs)
  have 1: "ranked (insert_sorted compareEarnings x acc)"
    using Cons.prems by (intro ranked_insert_sorted) auto
  have 2: "\<forall>y\<in>set (insert_sorted compareEarnings x acc). earnings y \<noteq> NaN"
    using Cons.prems by (auto simp: set_insert_sorted)
  have 3: "\<forall>y\<in>set xs. earnings y \<noteq> NaN"
    using Cons.prems by auto
  have 4: "filter (\<lambda>r. earnings r = v) (insert_sorted compareEarnings x acc)
         = filter (\<lambda>r. earnings r = v) acc @ filter (\<lambda>r. earnings r = v) [x]"
    using Cons.prems by (intro filter_insert_sorted) auto
  show ?case
    using Cons.IH [OF 1 2 3] 4 by simp
qed

lemma ranked_array_sort:
  "\<forall>y\<in>set xs. earnings y \<noteq> NaN \<Longrightarrow> ranked (array_sort compareEarnings xs)"
  using foldl_insert_sorted_ranked [of "[]" xs] by (simp add: array_sort_def)


lemma length_array_sort: "length (array_sort c xs) = length xs"
  using mset_array_sort [of c xs] by (metis size_mset)

section \<open>Properties of the grouping\<close>

lemma first_occurrences_snoc:
  "first_occurrences (xs @ [x]) =
     (if x \<in> set (first_occurrences xs) then first_occurrences xs else first_occurrences xs @ [x])"
  by (simp add: first_occurrences_def)

lemma first_occurrences_Nil [simp]: "first_occurrences [] = []"
  by (simp add: first_occurrences_def)

lemma set_first_occurrences [simp]: "set (first_occurrences xs) = set xs"
  by (induction xs rule: rev_induct) (auto simp: first_occurrences_snoc)

lemma distinct_first_occurrences [simp]: "distinct (first_occurrences xs)"
  by (induction xs rule: rev_induct) (auto simp: first_occurrences_snoc)

lemma group_insert_map:
  "distinct ks \<Longrightarrow>
   group_insert key v (map (\<lambda>k. (k, g k)) ks) =
     (if key \<in> set ks then map (\<lambda>k. (k, if k = key then g k @ [v] else g k)) ks
      else map (\<lambda>k. (k, g k)) ks @ [(key, [v])])"
  by (induction ks) auto

lemma groupBy_snoc: "groupBy (xs @ [x]) f = group_insert (f x) x (groupBy xs f)"
  by (simp add: groupBy_def)

lemma groupBy_eq:
  "groupBy xs f = map (\<lambda>k. (k, filter (\<lambda>v. f v = k) xs)) (first_occurrences (map f xs))"
proof (induction xs rule: rev_induct)
  case Nil
  then show ?case by (simp add: groupBy_def)
next
  case (snoc x xs)
  let ?ks = "first_occurrences (map f xs)"
  have new: "filter (\<lambda>v. f v = f x) xs = []" if "f x \<notin> set ?ks"
  proof -
    have "f v \<noteq> f x" if "v \<in> set xs" for v
      using that \<open>f x \<notin> set ?ks\<close> by (metis image_eqI set_first_occurrences set_map)
    then show ?thesis by (simp add: filter_empty_conv)
  qed
  show ?case
  proof (cases "f x \<in> set ?ks")
    case True
    then show ?thesis
      by (simp add: groupBy_snoc snoc.IH group_insert_map first_occurrences_snoc)
  next
    case False
    then have "f x \<notin> f ` set xs" by simp
    with False new show ?thesis
      by (auto simp: groupBy_snoc snoc.IH group_insert_map first_occurrences_snoc)
  qed
qed

lemma insort_key_map: "insort_key g (h x) (map h ys) = map h (insort_key (\<lambda>y. g (h y)) x ys)"
  by (induction ys) auto

lemma sort_key_map: "sort_key g (map h xs) = map h (sort_key (\<lambda>y. g (h y)) xs)"
  by (induction xs) (auto simp: insort_key_map)

lemma Object_values_map:
  "Object_values (map (\<lambda>k. (k, g k)) ks) = map g (key_order ks)"
  by (simp add: Object_values_def key_order_def sort_key_map filter_map comp_def)

lemma forEach_push_map:
  "\<forall>x\<in>set xs. f x = Inr (g x) \<Longrightarrow> forEach_push f xs = Inr (map g xs)"
  by (induction xs) auto

lemma set_key_order [simp]: "set (key_order ks) = set ks"
  by (auto simp: key_order_def)

lemma distinct_key_order: "distinct ks \<Longrightarrow> distinct (key_order ks)"
  by (auto simp: key_order_def)

lemma aggregate_group_members:
  assumes "u \<in> user ` set xs"
  shows "aggregate_group (members u xs) = Inr (aggregate_of u xs)"
proof -
  from assms obtain p ps where g: "members u xs = p # ps"
    by (cases "members u xs") (auto simp: members_def filter_empty_conv)
  then have "p \<in> set (members u xs)" by simp
  then have "user p = u" by (simp add: members_def)
  with g show ?thesis
    by (simp add: aggregate_group_def aggregate_of_def sum_numbers_def foldl_map)
qed

lemma getAggregatedPositions_eq:
  "getAggregatedPositions xs =
     Inr (map (\<lambda>u. aggregate_of u xs) (key_order (first_occurrences (map user xs))))"
proof -
  have "Object_values (groupBy xs user)
          = map (\<lambda>u. members u xs) (key_order (first_occurrences (map user xs)))"
    by (simp add: groupBy_eq Object_values_map members_def)
  moreover have "forEach_push aggregate_group (map (\<lambda>u. members u xs) ks)
          = Inr (map (\<lambda>u. aggregate_of u xs) ks)" if "set ks \<subseteq> user ` set xs" for ks
    using that by (induction ks) (auto simp: aggregate_group_members)
  ultimately show ?thesis
    by (simp add: getAggregatedPositions_def)
qed

section \<open>Integers that the rounding leaves unchanged\<close>

lemma ilog2_bounds: "1 \<le> n \<Longrightarrow> 0 \<le> ilog2 n \<and> 2 ^ nat (ilog2 n) \<le> n \<and> n < 2 * 2 ^ nat (ilog2 n)"
proof (induction n rule: ilog2.induct)
  case (1 n)
  show ?case
  proof (cases "n < 2")
    case True
    with "1.prems" show ?thesis by (simp add: ilog2.simps [of n])
  next
    case False
    then have "1 \<le> n div 2" by simp
    with "1.IH" False have IH: "0 \<le> ilog2 (n div 2)" "2 ^ nat (ilog2 (n div 2)) \<le> n div 2"
      "n div 2 < 2 * 2 ^ nat (ilog2 (n div 2))" by auto
    have eq: "ilog2 n = 1 + ilog2 (n div 2)" using False by (simp add: ilog2.simps [of n])
    have nat_eq: "nat (ilog2 n) = Suc (nat (ilog2 (n div 2)))" using eq IH(1) by simp
    have up: "2 * P \<le> n" if "P \<le> n div 2" for P using that by linarith
    have lo: "n < 2 * (2 * P)" if "n div 2 < 2 * P" for P using that by linarith
    show ?thesis using IH(1) eq up [OF IH(2)] lo [OF IH(3)] unfolding nat_eq by simp
  qed
qed

lemma round_half_even_of_int: "round_half_even (of_int z) = z"
  by (simp add: round_half_even_def)

lemma exponent_of_int:
  assumes "n \<noteq> 0"
  shows "exponent (of_int n) = ilog2 \<bar>n\<bar>"
proof -
  have b: "0 \<le> ilog2 \<bar>n\<bar>" "2 ^ nat (ilog2 \<bar>n\<bar>) \<le> \<bar>n\<bar>"
    using ilog2_bounds [of "\<bar>n\<bar>"] assms by auto
  have "ilog2 1 = 0" by (simp add: ilog2.simps)
  moreover have "(2::rat) ^ nat (ilog2 \<bar>n\<bar>) \<le> \<bar>of_int n\<bar>"
  proof -
    have "rat_of_int (2 ^ nat (ilog2 \<bar>n\<bar>)) \<le> of_int \<bar>n\<bar>"
      using b(2) by (simp only: of_int_le_iff)
    then show ?thesis by simp
  qed
  ultimately show ?thesis
    using b(1) by (simp add: exponent_def pow2_def)
qed

lemma fl_exact:
  assumes "q \<noteq> 0" and "exponent q < 1023"
    and "q / pow2 (max (exponent q - 52) (- 1074)) = of_int z"
  shows "fl q = Fin q"
proof -
  have pos: "pow2 k \<noteq> 0" for k by (simp add: pow2_def)
  from assms(3) have "of_int z * pow2 (max (exponent q - 52) (- 1074)) = q"
    using pos by (simp add: field_simps)
  with assms show ?thesis
    by (simp add: fl_def Let_def round_half_even_of_int)
qed

lemma fl_of_int:
  assumes "\<bar>n\<bar> \<le> 2 ^ 53"
  shows "fl (of_int n) = Fin (of_int n)"
proof (cases "n = 0")
  case True
  then show ?thesis by (simp add: fl_def)
next
  case False
  let ?e = "ilog2 \<bar>n\<bar>"
  have e: "exponent (of_int n) = ?e" using False by (rule exponent_of_int)
  have b: "0 \<le> ?e" "2 ^ nat ?e \<le> \<bar>n\<bar>" "\<bar>n\<bar> < 2 * 2 ^ nat ?e"
    using ilog2_bounds [of "\<bar>n\<bar>"] False by auto
  have "(2::int) ^ nat ?e \<le> 2 ^ 53" using b(2) assms by linarith
  then have "nat ?e \<le> 53" by (rule power_le_imp_le_exp [rotated]) simp
  then have e53: "?e \<le> 53" using b(1) by linarith
  have "\<exists>z. rat_of_int n / pow2 (max (?e - 52) (- 1074)) = of_int z"
  proof (cases "?e \<le> 52")
    case True
    then have "max (?e - 52) (- 1074) = ?e - 52" using b(1) by simp
    moreover have "rat_of_int n / pow2 (?e - 52) = of_int (n * 2 ^ nat (52 - ?e))"
      using True by (auto simp: pow2_def) 
    ultimately show ?thesis by metis
  next
    case False
    with e53 have e_eq: "?e = 53" by simp
    then have "nat ?e = 53" by simp
    with b(2) assms have "\<bar>n\<bar> = 2 ^ 53" by simp
    then have "n = 2 ^ 53 \<or> n = - (2 ^ 53)" by linarith
    then have "n = 2 * (n div 2)" by auto
    then have "rat_of_int n = 2 * of_int (n div 2)" by (metis of_int_mult of_int_numeral)
    then have "rat_of_int n / pow2 (max (?e - 52) (- 1074)) = of_int (n div 2)"
      using e_eq by (simp add: pow2_def)
    then show ?thesis by metis
  qed
  then obtain z where z: "rat_of_int n / pow2 (max (exponent (of_int n) - 52) (- 1074)) = of_int z"
    using e by auto
  have small: "exponent (rat_of_int n) < 1023" using e e53 by simp
  have "rat_of_int n \<noteq> 0" using False by simp
  then show ?thesis using small z by (rule fl_exact)
qed

section \<open>Properties of the valuated and of the aggregated records\<close>

lemma getAllPositions_Inr:
  "getAllPositions data = Inr out \<Longrightarrow>
   list_all2 (\<lambda>p r. user r = id' (Position.user p) \<and> getEarnings p = Inr (earnings r)
                     \<and> getROI p = Inr (roi r) \<and> invested r = Number_amount (valueBought p))
     data out"
  by (induction data arbitrary: out) (auto simp: Let_def split: sum.splits)


text \<open>
  The earnings that the pipeline hands to the ranking are never NaN: those of a position
  are finite, and a sum of finite numbers is a number or an infinity.
\<close>

lemma fl_not_NaN: "fl q \<noteq> NaN"
  by (simp add: fl_def Let_def)

lemma fadd_Fin_not_NaN: "x \<noteq> NaN \<Longrightarrow> fadd x (Fin q) \<noteq> NaN"
  by (cases x) (simp_all add: fl_not_NaN)

lemma foldl_fadd_not_NaN:
  "\<forall>n\<in>set ns. \<exists>q. n = Fin q \<Longrightarrow> acc \<noteq> NaN \<Longrightarrow> foldl fadd acc ns \<noteq> NaN"
proof (induction ns arbitrary: acc)
  case Nil
  then show ?case by simp
next
  case (Cons n ns)
  then obtain q where "n = Fin q" by auto
  with Cons.prems(2) have "fadd acc n \<noteq> NaN" by (simp add: fadd_Fin_not_NaN)
  with Cons show ?case by simp
qed

lemma getEarnings_finite: "getEarnings p = Inr x \<Longrightarrow> \<exists>q. x = Fin q"
  by (auto simp: getEarnings_def toNumber_def Let_def split: sum.splits if_splits)

lemma pipeline_earnings_not_NaN:
  assumes "getAllPositions data = Inr vs" and "getAggregatedPositions vs = Inr agg"
  shows "\<forall>r\<in>set agg. earnings r \<noteq> NaN"
proof -
  from getAllPositions_Inr [OF assms(1)]
  have "\<forall>v\<in>set vs. \<exists>p. getEarnings p = Inr (earnings v)"
    by (fastforce simp: list_all2_conv_all_nth in_set_conv_nth)
  then have fin: "\<forall>v\<in>set vs. \<exists>q. earnings v = Fin q"
    by (auto dest: getEarnings_finite)
  have "sum_numbers (map earnings (members u vs)) \<noteq> NaN" for u
    unfolding sum_numbers_def
    using fin by (intro foldl_fadd_not_NaN) (auto simp: members_def)
  with assms(2) show ?thesis
    by (auto simp: getAggregatedPositions_eq aggregate_of_def)
qed

section \<open>Exact sums of amounts\<close>

lemma is_amountE:
  assumes "is_amount x"
  obtains z where "x = Fin (of_int z)" and "0 \<le> z"
proof -
  from assms obtain q where q: "x = Fin q" "is_integer q" "0 \<le> q"
    by (cases x) (auto simp: is_amount_def)
  from q(2) obtain n where n: "q = of_int n" by (auto simp: is_integer_def)
  with q(3) have "0 \<le> n" by simp
  with n q(1) show thesis using that by blast
qed

lemma is_amount_of_int: "0 \<le> z \<Longrightarrow> is_amount (Fin (of_int z))"
  by (simp add: is_amount_def is_integer_def)

lemma exact_sum_Cons [simp]: "exact_sum (x # ns) = fin_value x + exact_sum ns"
  by (simp add: exact_sum_def)

lemma exact_sum_Nil [simp]: "exact_sum [] = 0"
  by (simp add: exact_sum_def)

lemma exact_sum_amounts:
  "list_all is_amount ns \<Longrightarrow> \<exists>z. 0 \<le> z \<and> exact_sum ns = of_int z"
proof (induction ns)
  case Nil
  show ?case by (rule exI [of _ 0]) simp
next
  case (Cons x ns)
  then obtain z where z: "0 \<le> z" "exact_sum ns = of_int z" by auto
  from Cons.prems obtain y where y: "x = Fin (of_int y)" "0 \<le> y"
    by (auto elim: is_amountE)
  show ?case
    by (rule exI [of _ "y + z"]) (simp add: y z fin_value_def)
qed

lemma foldl_fadd_amounts:
  assumes "list_all is_amount ns" and "0 \<le> a" and "of_int a + exact_sum ns \<le> 2 ^ 53"
  shows "foldl fadd (Fin (of_int a)) ns = Fin (of_int a + exact_sum ns)"
  using assms
proof (induction ns arbitrary: a)
  case Nil
  then show ?case by simp
next
  case (Cons x ns)
  from Cons.prems(1) obtain y where y: "x = Fin (of_int y)" "0 \<le> y"
    by (auto elim: is_amountE)
  from Cons.prems(1) obtain z where z: "0 \<le> z" "exact_sum ns = of_int z"
    using exact_sum_amounts [of ns] by auto
  have "rat_of_int (a + y + z) \<le> 2 ^ 53"
    using Cons.prems(3) by (simp add: y z fin_value_def)
  then have "a + y + z \<le> 2 ^ 53"
    by (metis of_int_le_iff of_int_numeral of_int_power)
  then have "\<bar>a + y\<bar> \<le> 2 ^ 53" using z(1) y(2) Cons.prems(2) by simp
  then have "fl (of_int (a + y)) = Fin (of_int (a + y))" by (rule fl_of_int)
  then have step: "fadd (Fin (of_int a)) (Fin (of_int y)) = Fin (of_int (a + y))" by simp
  have rest: "foldl fadd (Fin (of_int (a + y))) ns = Fin (of_int (a + y) + exact_sum ns)"
    using Cons.prems y by (intro Cons.IH) (simp_all add: fin_value_def)
  have "foldl fadd (Fin (of_int a)) (x # ns) = foldl fadd (Fin (of_int (a + y))) ns"
    using step by (simp add: y del: fadd.simps)
  also note rest
  also have "Fin (of_int (a + y) + exact_sum ns) = Fin (of_int a + exact_sum (x # ns))"
    by (simp add: y fin_value_def)
  finally show ?case .
qed

lemma sum_numbers_amounts:
  assumes "list_all is_amount ns" and "exact_sum ns \<le> 2 ^ 53"
  shows "sum_numbers ns = Fin (exact_sum ns)"
  using foldl_fadd_amounts [OF assms(1), of 0] assms(2) by (simp add: sum_numbers_def)

lemma exact_sum_filter_le:
  "list_all is_amount (map f xs) \<Longrightarrow> exact_sum (map f (filter P xs)) \<le> exact_sum (map f xs)"
proof (induction xs)
  case Nil
  then show ?case by simp
next
  case (Cons x xs)
  then have "0 \<le> fin_value (f x)" by (auto elim!: is_amountE simp: fin_value_def)
  with Cons show ?case by auto
qed

lemma exact_sum_partition:
  assumes "distinct ks" and "set (map user xs) \<subseteq> set ks"
  shows "(\<Sum>u\<leftarrow>ks. exact_sum (map f (members u xs))) = exact_sum (map f xs)"
  using assms(2)
proof (induction xs)
  case Nil
  then show ?case by (simp add: members_def)
next
  case (Cons x xs)
  have split: "exact_sum (map f (members u (x # xs)))
          = (if u = user x then fin_value (f x) else 0) + exact_sum (map f (members u xs))" for u
    by (auto simp: members_def)
  have "(\<Sum>u\<leftarrow>ks. if u = user x then fin_value (f x) else 0) = fin_value (f x)"
    using assms(1) Cons.prems by (simp add: sum_list_distinct_conv_sum_set)
  with Cons show ?case by (simp add: split sum_list_addf)
qed

section \<open>The claims about the aggregation\<close>




text \<open>
  C5. \<open>getAggregatedPositions\<close> returns a list, and in each of its records the fields
  \<open>invested\<close>, \<open>earnings\<close> and \<open>roi\<close> are the sums, added up left to right from \<open>0\<close>, of
  that field over the records of the input with the same user; no field is weighted.
\<close>

theorem getAggregatedPositions_sums:
  "\<exists>out. getAggregatedPositions xs = Inr out
     \<and> (\<forall>r\<in>set out.
           invested r = sum_numbers (map invested (members (user r) xs))
           \<and> earnings r = sum_numbers (map earnings (members (user r) xs))
           \<and> roi r = sum_numbers (map roi (members (user r) xs)))"
proof -
  let ?out = "map (\<lambda>u. aggregate_of u xs) (key_order (first_occurrences (map user xs)))"
  have "getAggregatedPositions xs = Inr ?out"
    by (rule getAggregatedPositions_eq)
  moreover have "invested r = sum_numbers (map invested (members (user r) xs))
        \<and> earnings r = sum_numbers (map earnings (members (user r) xs))
        \<and> roi r = sum_numbers (map roi (members (user r) xs))" if "r \<in> set ?out" for r
  proof -
    from that obtain u where "r = aggregate_of u xs" by auto
    then show ?thesis by (simp add: aggregate_of_def)
  qed
  ultimately show ?thesis by blast
qed

theorem getAggregatedPositions_sums_witness:
  "getAggregatedPositions [\<lparr>user = ''A'', earnings = Fin 100, invested = Fin 10, roi = Fin 1\<rparr>,
      \<lparr>user = ''B'', earnings = Fin 200, invested = Fin 20, roi = Fin 2\<rparr>,
      \<lparr>user = ''A'', earnings = Fin 50, invested = Fin 5, roi = Fin 3\<rparr>]
     = Inr [\<lparr>user = ''A'', earnings = Fin 150, invested = Fin 15, roi = Fin 4\<rparr>,
            \<lparr>user = ''B'', earnings = Fin 200, invested = Fin 20, roi = Fin 2\<rparr>]
   \<and> Fin 4 = sum_numbers (map roi (members ''A'' [\<lparr>user = ''A'', earnings = Fin 100, invested = Fin 10, roi = Fin 1\<rparr>,
      \<lparr>user = ''B'', earnings = Fin 200, invested = Fin 20, roi = Fin 2\<rparr>,
      \<lparr>user = ''A'', earnings = Fin 50, invested = Fin 5, roi = Fin 3\<rparr>]))"
proof -
  let ?xs = "[\<lparr>user = ''A'', earnings = Fin 100, invested = Fin 10, roi = Fin 1\<rparr>,
      \<lparr>user = ''B'', earnings = Fin 200, invested = Fin 20, roi = Fin 2\<rparr>,
      \<lparr>user = ''A'', earnings = Fin 50, invested = Fin 5, roi = Fin 3\<rparr>]"
  let ?a = "\<lparr>user = ''A'', earnings = Fin 150, invested = Fin 15, roi = Fin 4\<rparr>"
  let ?b = "\<lparr>user = ''B'', earnings = Fin 200, invested = Fin 20, roi = Fin 2\<rparr>"
  have out: "getAggregatedPositions ?xs = Inr [?a, ?b]" by code_simp
  from getAggregatedPositions_sums [of ?xs] out
  have "\<forall>r\<in>set [?a, ?b]. roi r = sum_numbers (map roi (members (user r) ?xs))"
    by simp
  then have "roi ?a = sum_numbers (map roi (members (user ?a) ?xs))" by simp
  with out show ?thesis by simp
qed

text \<open>
  C4, as amended. \<open>getAggregatedPositions\<close> returns exactly one record for each distinct
  user of its input. When the amounts invested are non-negative integers whose total is
  at most \<open>2^53\<close>, the amounts of the records returned add up to the total of the input,
  both as exact values and as the sums that the addition of numbers computes.
\<close>

theorem getAggregatedPositions_conservation:
  "\<exists>out. getAggregatedPositions xs = Inr out
     \<and> distinct (map user out) \<and> set (map user out) = set (map user xs)
     \<and> (list_all is_amount (map invested xs) \<and> exact_sum (map invested xs) \<le> 2 ^ 53
          \<longrightarrow> exact_sum (map invested out) = exact_sum (map invested xs)
              \<and> sum_numbers (map invested out) = sum_numbers (map invested xs))"
proof -
  let ?ks = "key_order (first_occurrences (map user xs))"
  let ?out = "map (\<lambda>u. aggregate_of u xs) ?ks"
  have users: "map user ?out = ?ks"
    by (induction ?ks) (simp_all add: aggregate_of_def comp_def)
  have d: "distinct ?ks" by (simp add: distinct_key_order)
  have s: "set ?ks = set (map user xs)" by simp
  have "exact_sum (map invested ?out) = exact_sum (map invested xs)
        \<and> sum_numbers (map invested ?out) = sum_numbers (map invested xs)"
    if am: "list_all is_amount (map invested xs)" and le: "exact_sum (map invested xs) \<le> 2 ^ 53"
  proof -
    have gam: "list_all is_amount (map invested (members u xs))" for u
      using am by (auto simp: members_def list_all_iff)
    have grp: "sum_numbers (map invested (members u xs)) = Fin (exact_sum (map invested (members u xs)))" for u
    proof (rule sum_numbers_amounts)
      show "list_all is_amount (map invested (members u xs))" by (rule gam)
      show "exact_sum (map invested (members u xs)) \<le> 2 ^ 53"
        using exact_sum_filter_le [OF am, of "\<lambda>p. user p = u"] le by (simp add: members_def)
    qed
    have "exact_sum (map invested ?out) = (\<Sum>u\<leftarrow>?ks. exact_sum (map invested (members u xs)))"
      by (simp add: exact_sum_def aggregate_of_def comp_def grp fin_value_def)
    also have "\<dots> = exact_sum (map invested xs)"
      using d s by (intro exact_sum_partition) auto
    finally have ex: "exact_sum (map invested ?out) = exact_sum (map invested xs)" .
    have "is_amount (invested (aggregate_of u xs))" for u
      using exact_sum_amounts [OF gam [of u]]
      by (auto simp: aggregate_of_def grp intro: is_amount_of_int)
    then have "list_all is_amount (map invested ?out)"
      by (simp add: list_all_iff)
    then have "sum_numbers (map invested ?out) = Fin (exact_sum (map invested ?out))"
      using ex le by (intro sum_numbers_amounts) simp_all
    moreover have "sum_numbers (map invested xs) = Fin (exact_sum (map invested xs))"
      using am le by (rule sum_numbers_amounts)
    ultimately show ?thesis using ex by simp
  qed
  with users d s show ?thesis
    by (auto simp: getAggregatedPositions_eq simp del: set_map)
qed

theorem getAggregatedPositions_conservation_witness:
  "map user (projr (getAggregatedPositions [\<lparr>user = ''A'', earnings = Fin 100, invested = Fin 10, roi = Fin 1\<rparr>,
      \<lparr>user = ''B'', earnings = Fin 200, invested = Fin 20, roi = Fin 2\<rparr>,
      \<lparr>user = ''A'', earnings = Fin 50, invested = Fin 5, roi = Fin 3\<rparr>])) = [''A'', ''B'']
   \<and> exact_sum (map invested (projr (getAggregatedPositions [\<lparr>user = ''A'', earnings = Fin 100, invested = Fin 10, roi = Fin 1\<rparr>,
      \<lparr>user = ''B'', earnings = Fin 200, invested = Fin 20, roi = Fin 2\<rparr>,
      \<lparr>user = ''A'', earnings = Fin 50, invested = Fin 5, roi = Fin 3\<rparr>]))) = 35"
proof -
  let ?xs = "[\<lparr>user = ''A'', earnings = Fin 100, invested = Fin 10, roi = Fin 1\<rparr>,
      \<lparr>user = ''B'', earnings = Fin 200, invested = Fin 20, roi = Fin 2\<rparr>,
      \<lparr>user = ''A'', earnings = Fin 50, invested = Fin 5, roi = Fin 3\<rparr>]"
  let ?a = "\<lparr>user = ''A'', earnings = Fin 150, invested = Fin 15, roi = Fin 4\<rparr>"
  let ?b = "\<lparr>user = ''B'', earnings = Fin 200, invested = Fin 20, roi = Fin 2\<rparr>"
  have out: "getAggregatedPositions ?xs = Inr [?a, ?b]" by code_simp
  have h1: "list_all is_amount (map invested ?xs)"
    by (simp add: is_amount_def is_integer_def)
  have h2: "exact_sum (map invested ?xs) \<le> 2 ^ 53"
    by (simp add: fin_value_def)
  have total: "exact_sum (map invested ?xs) = 35"
    by (simp add: fin_value_def)
  from getAggregatedPositions_conservation [of ?xs] out h1 h2 total
  have "exact_sum (map invested [?a, ?b]) = 35" by simp
  with out show ?thesis by simp
qed

text \<open>
  C4 as written fails for large amounts: the running total of user \<open>A\<close> stays at \<open>2^53\<close>
  when \<open>1\<close> is added, so the amounts returned add up to \<open>2^53 + 2\<close> where those of the input
  add up to \<open>2^53 + 4\<close>; summed as numbers, the input gives \<open>2^53\<close>.
\<close>

theorem conservation_rounding_counterexample:
  "getAggregatedPositions [\<lparr>user = ''A'', earnings = Fin 0, invested = Fin (2 ^ 53), roi = Fin 0\<rparr>,
      \<lparr>user = ''A'', earnings = Fin 0, invested = Fin 1, roi = Fin 0\<rparr>,
      \<lparr>user = ''A'', earnings = Fin 0, invested = Fin 1, roi = Fin 0\<rparr>,
      \<lparr>user = ''B'', earnings = Fin 0, invested = Fin 1, roi = Fin 0\<rparr>,
      \<lparr>user = ''B'', earnings = Fin 0, invested = Fin 1, roi = Fin 0\<rparr>]
     = Inr [\<lparr>user = ''A'', earnings = Fin 0, invested = Fin (2 ^ 53), roi = Fin 0\<rparr>,
      \<lparr>user = ''B'', earnings = Fin 0, invested = Fin 2, roi = Fin 0\<rparr>]
   \<and> exact_sum (map invested [\<lparr>user = ''A'', earnings = Fin 0, invested = Fin (2 ^ 53), roi = Fin 0\<rparr>,
      \<lparr>user = ''A'', earnings = Fin 0, invested = Fin 1, roi = Fin 0\<rparr>,
      \<lparr>user = ''A'', earnings = Fin 0, invested = Fin 1, roi = Fin 0\<rparr>,
      \<lparr>user = ''B'', earnings = Fin 0, invested = Fin 1, roi = Fin 0\<rparr>,
      \<lparr>user = ''B'', earnings = Fin 0, invested = Fin 1, roi = Fin 0\<rparr>]) = 2 ^ 53 + 4
   \<and> exact_sum (map invested [\<lparr>user = ''A'', earnings = Fin 0, invested = Fin (2 ^ 53), roi = Fin 0\<rparr>,
      \<lparr>user = ''B'', earnings = Fin 0, invested = Fin 2, roi = Fin 0\<rparr>]) = 2 ^ 53 + 2
   \<and> sum_numbers (map invested [\<lparr>user = ''A'', earnings = Fin 0, invested = Fin (2 ^ 53), roi = Fin 0\<rparr>,
      \<lparr>user = ''A'', earnings = Fin 0, invested = Fin 1, roi = Fin 0\<rparr>,
      \<lparr>user = ''A'', earnings = Fin 0, invested = Fin 1, roi = Fin 0\<rparr>,
      \<lparr>user = ''B'', earnings = Fin 0, invested = Fin 1, roi = Fin 0\<rparr>,
      \<lparr>user = ''B'', earnings = Fin 0, invested = Fin 1, roi = Fin 0\<rparr>]) = Fin (2 ^ 53)
   \<and> sum_numbers (map invested [\<lparr>user = ''A'', earnings = Fin 0, invested = Fin (2 ^ 53), roi = Fin 0\<rparr>,
      \<lparr>user = ''B'', earnings = Fin 0, invested = Fin 2, roi = Fin 0\<rparr>]) = Fin (2 ^ 53 + 2)"
proof -
  have 1: "getAggregatedPositions [\<lparr>user = ''A'', earnings = Fin 0, invested = Fin (2 ^ 53), roi = Fin 0\<rparr>,
      \<lparr>user = ''A'', earnings = Fin 0, invested = Fin 1, roi = Fin 0\<rparr>,
      \<lparr>user = ''A'', earnings = Fin 0, invested = Fin 1, roi = Fin 0\<rparr>,
      \<lparr>user = ''B'', earnings = Fin 0, invested = Fin 1, roi = Fin 0\<rparr>,
      \<lparr>user = ''B'', earnings = Fin 0, invested = Fin 1, roi = Fin 0\<rparr>]
     = Inr [\<lparr>user = ''A'', earnings = Fin 0, invested = Fin (2 ^ 53), roi = Fin 0\<rparr>,
      \<lparr>user = ''B'', earnings = Fin 0, invested = Fin 2, roi = Fin 0\<rparr>]"
    by code_simp
  have 2: "sum_numbers (map invested [\<lparr>user = ''A'', earnings = Fin 0, invested = Fin (2 ^ 53), roi = Fin 0\<rparr>,
      \<lparr>user = ''A'', earnings = Fin 0, invested = Fin 1, roi = Fin 0\<rparr>,
      \<lparr>user = ''A'', earnings = Fin 0, invested = Fin 1, roi = Fin 0\<rparr>,
      \<lparr>user = ''B'', earnings = Fin 0, invested = Fin 1, roi = Fin 0\<rparr>,
      \<lparr>user = ''B'', earnings = Fin 0, invested = Fin 1, roi = Fin 0\<rparr>]) = Fin (2 ^ 53)"
    by code_simp
  have 3: "sum_numbers (map invested [\<lparr>user = ''A'', earnings = Fin 0, invested = Fin (2 ^ 53), roi = Fin 0\<rparr>,
      \<lparr>user = ''B'', earnings = Fin 0, invested = Fin 2, roi = Fin 0\<rparr>]) = Fin (2 ^ 53 + 2)"
    by code_simp
  from 1 2 3 show ?thesis by (simp add: fin_value_def)
qed

section \<open>The claims about the ranking\<close>

text \<open>
  C3. For every list of records whose earnings are numbers other than NaN, as those of
  aggregated records are, \<open>getTopTen\<close> returns a board that is ranked by earnings, no
  record having greater earnings than one before it, of length
  \<open>min(10, number of records)\<close>: the first ten of the ranked records. The empty list gives
  the empty board, and no call raises an error.
\<close>

theorem getTopTen_ranked:
  assumes "\<forall>r\<in>set xs. earnings r \<noteq> NaN"
  shows "ranked (leaderBoardPositions (snd (getTopTen xs)))
         \<and> length (leaderBoardPositions (snd (getTopTen xs))) = min 10 (length xs)
         \<and> (\<exists>ys. mset ys = mset xs \<and> ranked ys \<and> leaderBoardPositions (snd (getTopTen xs)) = take 10 ys)
         \<and> getTopTen [] = ([], \<lparr>leaderBoardPositions = []\<rparr>)"
proof -
  let ?ys = "array_sort compareEarnings xs"
  have r: "ranked ?ys" using assms by (rule ranked_array_sort)
  have b: "leaderBoardPositions (snd (getTopTen xs)) = take 10 ?ys"
    by (simp add: getTopTen_def Let_def)
  have "ranked (take 10 ?ys)" using r by (rule sorted_wrt_take)
  moreover have "length (take 10 ?ys) = min 10 (length xs)"
    by (simp add: length_array_sort)
  moreover have "mset ?ys = mset xs" by (rule mset_array_sort)
  moreover have "getTopTen [] = ([], \<lparr>leaderBoardPositions = []\<rparr>)"
    by (simp add: getTopTen_def array_sort_def)
  ultimately show ?thesis using r b by auto
qed

theorem getTopTen_ranked_witness:
  "map user (leaderBoardPositions (snd (getTopTen [\<lparr>user = ''A'', earnings = Fin 150, invested = Fin 10, roi = Fin 1\<rparr>,
      \<lparr>user = ''B'', earnings = Fin 200, invested = Fin 20, roi = Fin 2\<rparr>,
      \<lparr>user = ''C'', earnings = Fin 150, invested = Fin 5, roi = Fin 3\<rparr>,
      \<lparr>user = ''D'', earnings = Fin 300, invested = Fin 5, roi = Fin 3\<rparr>]))) = [''D'', ''B'', ''A'', ''C'']
   \<and> ranked (leaderBoardPositions (snd (getTopTen [\<lparr>user = ''A'', earnings = Fin 150, invested = Fin 10, roi = Fin 1\<rparr>,
      \<lparr>user = ''B'', earnings = Fin 200, invested = Fin 20, roi = Fin 2\<rparr>,
      \<lparr>user = ''C'', earnings = Fin 150, invested = Fin 5, roi = Fin 3\<rparr>,
      \<lparr>user = ''D'', earnings = Fin 300, invested = Fin 5, roi = Fin 3\<rparr>])))
   \<and> length (leaderBoardPositions (snd (getTopTen [\<lparr>user = ''A'', earnings = Fin 150, invested = Fin 10, roi = Fin 1\<rparr>,
      \<lparr>user = ''B'', earnings = Fin 200, invested = Fin 20, roi = Fin 2\<rparr>,
      \<lparr>user = ''C'', earnings = Fin 150, invested = Fin 5, roi = Fin 3\<rparr>,
      \<lparr>user = ''D'', earnings = Fin 300, invested = Fin 5, roi = Fin 3\<rparr>]))) = 4"
proof -
  let ?xs = "[\<lparr>user = ''A'', earnings = Fin 150, invested = Fin 10, roi = Fin 1\<rparr>,
      \<lparr>user = ''B'', earnings = Fin 200, invested = Fin 20, roi = Fin 2\<rparr>,
      \<lparr>user = ''C'', earnings = Fin 150, invested = Fin 5, roi = Fin 3\<rparr>,
      \<lparr>user = ''D'', earnings = Fin 300, invested = Fin 5, roi = Fin 3\<rparr>]"
  have h: "\<forall>r\<in>set ?xs. earnings r \<noteq> NaN" by simp
  have "map user (leaderBoardPositions (snd (getTopTen ?xs))) = [''D'', ''B'', ''A'', ''C'']"
    by code_simp
  then show ?thesis using getTopTen_ranked [OF h] by simp
qed





end
